theory Spec2Isabelle
  imports Complex_Main "HOL-Library.Sublist"
begin

section \<open>ALSurfaceMutationPublisher: the data model\<close>

text \<open>
  A shallow embedding of \<^verbatim>\<open>packages/hyperion-autologging/src/ALSurfaceMutationPublisher.ts\<close>.

  Objects that the code shares by reference are kept in explicit stores:
  \<^item> a DOM node is a handle (\<open>nodeId\<close>) together with the two read-only properties the
    code inspects, \<open>instanceof HTMLElement\<close> and \<open>nodeName\<close>; JavaScript's \<open>===\<close> and
    \<open>!=\<close> on nodes are equality of these values;
  \<^item> a metadata bag is an address (\<open>MetaRef\<close>) into \<open>heap\<close>, a store of string-keyed bags;
  \<^item> an emitted event object is an address (its index) into \<open>eventObjects\<close>;
  \<^item> a flowlet is a handle; \<open>getFullName\<close> is a collaborator.

  A record of \<open>activeSurfaces\<close> is held by value, the map being the only lasting reference
  to it. \<open>channel.emit\<close> is recorded as the address handed over; what subscribers do with
  the event is outside this file, and the two listeners run one notification at a time.

  JavaScript numbers that hold timestamps are modelled as reals, event indices as integers.
\<close>

record Node =
  nodeId :: nat
  isHTMLElement :: bool
  nodeName :: string

datatype ALFlowlet = ALFlowlet nat

datatype MetaRef = MetaRef nat

type_synonym ALMetadata = "string \<rightharpoonup> string"

record ReactComponentData =
  name :: string
  stack :: "string list"

datatype Action = added | removed

datatype EventName = mount_component | unmount_component

text \<open>
  \<open>SurfaceInfo\<close> (lines 53-62). The fields of \<open>ALElementTextEvent\<close>, declared outside this
  file and spread into the record at line 109, are kept together in \<open>elementText\<close>, whose
  type \<open>'t\<close> is a parameter.
\<close>

record 't SurfaceInfo =
  surface :: string
  element :: Node
  addTime :: real
  removeTime :: "real option"
  flowlet :: "ALFlowlet option"
  addFlowlet :: "ALFlowlet option"
  removeFlowlet :: "ALFlowlet option"
  mountEvent :: "nat option"
  reactComponentName :: "string option"
  reactComponentStack :: "string list option"
  elementText :: 't
  metadata :: MetaRef

text \<open>
  \<open>ALSurfaceMutationEventData\<close> (lines 21-44): the object literals of lines 169-176 and
  185-194 spread the record (\<open>spread\<close>: a copy of its fields at that moment) and add the
  event's own fields. The literal of line 185 sets \<open>mountEvent\<close> again, to the value read
  from the record at line 162.
\<close>

record 't ALSurfaceMutationEventData =
  spread :: "'t SurfaceInfo"
  event :: EventName
  eventTimestamp :: real
  eventIndex :: int
  autoLoggingID :: string
  mountedDuration :: "real option"

text \<open>The notification payload \<open>ALChannelSurfaceEventData\<close>, destructured at line 79.\<close>

record ALChannelSurfaceEventData =
  ev_element :: Node
  ev_surface :: "string option"
  ev_flowlet :: "ALFlowlet option"
  ev_metadata :: MetaRef

text \<open>
  The collaborators, as they answer during one notification: the clock, the flowlet
  manager, the DOM's containment test, element introspection, text capture, the identity
  generator, and the event-index generator (\<open>getNextEventIndex k\<close> is what its call number
  \<open>k\<close>, counted from 0 over the calls this module makes, returns). \<open>cacheElementReactInfo\<close>
  is the option of \<open>publish\<close>.
\<close>

record 't World =
  performanceAbsoluteNow :: real
  flowletManager_top :: "ALFlowlet option"
  contains :: "Node \<Rightarrow> Node \<Rightarrow> bool"
  getReactComponentData :: "Node \<Rightarrow> ReactComponentData option"
  getElementTextEvent :: "Node option \<Rightarrow> string \<Rightarrow> 't"
  getFullName :: "ALFlowlet \<Rightarrow> string"
  getNextEventIndex :: "nat \<Rightarrow> int"
  getOrSetAutoLoggingID :: "Node \<Rightarrow> string"
  cacheElementReactInfo :: bool

text \<open>
  The state: the module-level map \<open>activeSurfaces\<close> (line 64), the store of metadata bags,
  the store of event objects, the addresses handed to \<open>channel.emit\<close> in order, and the
  number of calls made to the event-index generator.
\<close>

record 't State =
  activeSurfaces :: "string \<rightharpoonup> 't SurfaceInfo"
  heap :: "MetaRef \<Rightarrow> ALMetadata"
  eventObjects :: "'t ALSurfaceMutationEventData list"
  channel :: "nat list"
  indexCalls :: nat

datatype error = AssertionFailed

definition init :: "(MetaRef \<Rightarrow> ALMetadata) \<Rightarrow> 't State" where
  "init h = \<lparr>activeSurfaces = Map.empty, heap = h, eventObjects = [], channel = [], indexCalls = 0\<rparr>"

section \<open>The operations\<close>

text \<open>\<open>/LINK|SCRIPT/.test(s)\<close>: an unanchored search, one alternative after the other at each position.\<close>

fun starts_with :: "string \<Rightarrow> string \<Rightarrow> bool" where
  "starts_with [] s = True"
| "starts_with (p # ps) [] = False"
| "starts_with (p # ps) (c # cs) = (p = c \<and> starts_with ps cs)"

fun regex_LINK_SCRIPT_test :: "string \<Rightarrow> bool" where
  "regex_LINK_SCRIPT_test [] = False"
| "regex_LINK_SCRIPT_test (c # cs) =
     (starts_with ''LINK'' (c # cs) \<or> starts_with ''SCRIPT'' (c # cs) \<or> regex_LINK_SCRIPT_test cs)"

text \<open>\<open>metadata.key = v\<close> on the bag at address \<open>r\<close>.\<close>

definition set_metadata :: "(MetaRef \<Rightarrow> ALMetadata) \<Rightarrow> MetaRef \<Rightarrow> string \<Rightarrow> string \<Rightarrow> (MetaRef \<Rightarrow> ALMetadata)" where
  "set_metadata h r k v = h(r := (h r)(k \<mapsto> v))"

text \<open>
  Modelled from the spec: \<open>assert\<close> of \<^verbatim>\<open>@hyperion/global/src/assert\<close> is not part of the
  sources; a failed assertion is fatal, so it ends the call with \<open>AssertionFailed\<close>.

  \<open>emitMutationEvent\<close> (lines 158-198) returns the record as it is after the call (the
  \<open>added\<close> path assigns its \<open>mountEvent\<close>) and the new state.
\<close>

definition emitMutationEvent ::
  "'t World \<Rightarrow> Action \<Rightarrow> 't SurfaceInfo \<Rightarrow> 't State \<Rightarrow> error + ('t SurfaceInfo \<times> 't State)" where
  "emitMutationEvent w action surfaceInfo s =
    (case action of
       added \<Rightarrow>
         (let h = (case addFlowlet surfaceInfo of
                     Some fl \<Rightarrow> set_metadata (heap s) (metadata surfaceInfo) ''add_flowlet'' (getFullName w fl)
                   | None \<Rightarrow> heap s);
              ev = \<lparr>spread = surfaceInfo,
                    event = mount_component,
                    eventTimestamp = addTime surfaceInfo,
                    eventIndex = getNextEventIndex w (indexCalls s),
                    autoLoggingID = getOrSetAutoLoggingID w (element surfaceInfo),
                    mountedDuration = None\<rparr>;
              a = length (eventObjects s)
          in Inr (surfaceInfo\<lparr>mountEvent := Some a\<rparr>,
                  s\<lparr>heap := h,
                    eventObjects := eventObjects s @ [ev],
                    channel := channel s @ [a],
                    indexCalls := Suc (indexCalls s)\<rparr>))
     | removed \<Rightarrow>
         (case (mountEvent surfaceInfo, removeTime surfaceInfo) of
            (Some me, Some rt) \<Rightarrow>
              (let h = (case removeFlowlet surfaceInfo of
                          Some fl \<Rightarrow> set_metadata (heap s) (metadata surfaceInfo) ''remove_flowlet'' (getFullName w fl)
                        | None \<Rightarrow> heap s);
                   ev = \<lparr>spread = surfaceInfo\<lparr>mountEvent := Some me\<rparr>,
                         event = unmount_component,
                         eventTimestamp = rt,
                         eventIndex = getNextEventIndex w (indexCalls s),
                         autoLoggingID = getOrSetAutoLoggingID w (element surfaceInfo),
                         mountedDuration = Some ((rt - addTime surfaceInfo) / 1000)\<rparr>;
                   a = length (eventObjects s)
               in Inr (surfaceInfo,
                       s\<lparr>heap := h,
                         eventObjects := eventObjects s @ [ev],
                         channel := channel s @ [a],
                         indexCalls := Suc (indexCalls s)\<rparr>))
          | _ \<Rightarrow> Inl AssertionFailed))"

text \<open>
  \<open>processNode\<close> (lines 77-147). In the first-open branch the record is put into the map
  (line 114) and then mutated through its alias by \<open>emitMutationEvent\<close> (line 169); the
  model stores the record again after the call, which leaves the map as the mutation does.
\<close>

definition processNode ::
  "'t World \<Rightarrow> 't State \<Rightarrow> ALChannelSurfaceEventData \<Rightarrow> Action \<Rightarrow> error + 't State" where
  "processNode w s ev action =
    (let timestamp = performanceAbsoluteNow w;
         el = ev_element ev;
         currFlowlet = flowletManager_top w
     in if \<not> isHTMLElement el \<or> regex_LINK_SCRIPT_test (nodeName el) then Inr s
        else case ev_surface ev of
          None \<Rightarrow> Inr s
        | Some sf \<Rightarrow>
            (case action of
               added \<Rightarrow>
                 (case activeSurfaces s sf of
                    None \<Rightarrow>
                      (let reactComponentData =
                             (if cacheElementReactInfo w then getReactComponentData w el else None);
                           text_ev =
                             (if cacheElementReactInfo w then getElementTextEvent w (Some el) sf
                              else getElementTextEvent w None sf);
                           info = \<lparr>surface = sf,
                                   element = el,
                                   addTime = timestamp,
                                   removeTime = None,
                                   flowlet = ev_flowlet ev,
                                   addFlowlet = currFlowlet,
                                   removeFlowlet = None,
                                   mountEvent = None,
                                   reactComponentName = map_option name reactComponentData,
                                   reactComponentStack = map_option stack reactComponentData,
                                   elementText = text_ev,
                                   metadata = ev_metadata ev\<rparr>
                       in case emitMutationEvent w action info
                                 (s\<lparr>activeSurfaces := (activeSurfaces s)(sf \<mapsto> info)\<rparr>) of
                            Inl e \<Rightarrow> Inl e
                          | Inr (info', s') \<Rightarrow>
                              Inr (s'\<lparr>activeSurfaces := (activeSurfaces s')(sf \<mapsto> info')\<rparr>))
                  | Some info \<Rightarrow>
                      if el \<noteq> element info \<and> contains w el (element info)
                      then Inr (s\<lparr>activeSurfaces := (activeSurfaces s)
                                   (sf \<mapsto> info\<lparr>element := el, addFlowlet := currFlowlet, addTime := timestamp\<rparr>)\<rparr>)
                      else Inr s)
             | removed \<Rightarrow>
                 (case activeSurfaces s sf of
                    None \<Rightarrow> Inr s
                  | Some info \<Rightarrow>
                      if element info = el
                      then (case emitMutationEvent w action
                                   (info\<lparr>removeFlowlet := currFlowlet, removeTime := Some timestamp\<rparr>)
                                   (s\<lparr>activeSurfaces := (activeSurfaces s)(sf := None)\<rparr>) of
                              Inl e \<Rightarrow> Inl e
                            | Inr (info', s') \<Rightarrow> Inr s')
                      else Inr s)))"

text \<open>
  A notification sequence: the listeners of lines 149-155 call \<open>processNode\<close> once per
  notification; an error ends the sequence, as the exception would.
\<close>

fun run ::
  "'t State \<Rightarrow> ('t World \<times> ALChannelSurfaceEventData \<times> Action) list \<Rightarrow> error + 't State" where
  "run s [] = Inr s"
| "run s ((w, ev, action) # rest) =
     (case processNode w s ev action of Inl e \<Rightarrow> Inl e | Inr s' \<Rightarrow> run s' rest)"


section \<open>Notions used to state the properties\<close>

text \<open>The guard of line 82 lets a node through when it is an \<open>HTMLElement\<close> whose name the pattern does not match.\<close>

definition trackable :: "Node \<Rightarrow> bool" where
  "trackable n \<longleftrightarrow> isHTMLElement n \<and> \<not> regex_LINK_SCRIPT_test (nodeName n)"


text \<open>The record built at lines 101-113.\<close>

definition new_info :: "'t World \<Rightarrow> ALChannelSurfaceEventData \<Rightarrow> string \<Rightarrow> 't SurfaceInfo" where
  "new_info w ev sf =
     \<lparr>surface = sf, element = ev_element ev, addTime = performanceAbsoluteNow w, removeTime = None,
      flowlet = ev_flowlet ev, addFlowlet = flowletManager_top w, removeFlowlet = None, mountEvent = None,
      reactComponentName = map_option name (if cacheElementReactInfo w then getReactComponentData w (ev_element ev) else None),
      reactComponentStack = map_option stack (if cacheElementReactInfo w then getReactComponentData w (ev_element ev) else None),
      elementText = getElementTextEvent w (if cacheElementReactInfo w then Some (ev_element ev) else None) sf,
      metadata = ev_metadata ev\<rparr>"


text \<open>
  What holds of every record in the live map between two notifications: it sits under
  its own surface id, its reference node passed the guard, and its \<open>mountEvent\<close> is the
  address of a mount event for that surface, handed to the channel earlier, whose
  metadata is the record's own bag.
\<close>

definition record_ok :: "'t State \<Rightarrow> string \<Rightarrow> 't SurfaceInfo \<Rightarrow> bool" where
  "record_ok s sf info \<longleftrightarrow>
     surface info = sf \<and> trackable (element info) \<and>
     (case mountEvent info of
        None \<Rightarrow> False
      | Some me \<Rightarrow>
          me < length (eventObjects s) \<and> me \<in> set (channel s) \<and>
          event (eventObjects s ! me) = mount_component \<and>
          surface (spread (eventObjects s ! me)) = sf \<and>
          metadata (spread (eventObjects s ! me)) = metadata info)"

definition tracker_inv :: "'t State \<Rightarrow> bool" where
  "tracker_inv s \<longleftrightarrow> (\<forall>sf info. activeSurfaces s sf = Some info \<longrightarrow> record_ok s sf info)"


text \<open>
  The inputs that the specification calls ignorable: an untrackable node, a missing
  surface id, a removal for a surface without a record or for a node that is not the
  record's reference node, and an addition for a surface with a record whose reference
  node is the very node notified or is not contained in it.
\<close>

definition ignorable :: "'t World \<Rightarrow> 't State \<Rightarrow> ALChannelSurfaceEventData \<Rightarrow> Action \<Rightarrow> bool" where
  "ignorable w s ev action \<longleftrightarrow>
     \<not> trackable (ev_element ev) \<or>
     (case ev_surface ev of
        None \<Rightarrow> True
      | Some sf \<Rightarrow>
          (case activeSurfaces s sf of
             None \<Rightarrow> action = removed
           | Some info \<Rightarrow>
               (case action of
                  removed \<Rightarrow> element info \<noteq> ev_element ev
                | added \<Rightarrow> ev_element ev = element info \<or> \<not> contains w (ev_element ev) (element info))))"

text \<open>The clock readings of a notification sequence, in order.\<close>

definition timestamps :: "('t World \<times> ALChannelSurfaceEventData \<times> Action) list \<Rightarrow> real list" where
  "timestamps steps = map (\<lambda>st. performanceAbsoluteNow (fst st)) steps"

text \<open>The event indices of the events handed to the channel, in order of emission.\<close>

definition emittedIndices :: "'t State \<Rightarrow> int list" where
  "emittedIndices s = map (\<lambda>a. eventIndex (eventObjects s ! a)) (channel s)"

text \<open>
  An unmount event is well-timed when its \<open>eventTimestamp\<close> is the \<open>removeTime\<close> it carries,
  its \<open>mountedDuration\<close> is the difference to the \<open>addTime\<close> it carries, in seconds, and that
  is not negative.
\<close>

definition duration_ok :: "'t ALSurfaceMutationEventData \<Rightarrow> bool" where
  "duration_ok u \<longleftrightarrow>
     (case removeTime (spread u) of
        None \<Rightarrow> False
      | Some rt \<Rightarrow>
          eventTimestamp u = rt \<and>
          mountedDuration u = Some ((rt - addTime (spread u)) / 1000) \<and>
          0 \<le> (rt - addTime (spread u)) / 1000)"

subsection \<open>A small document for the scenarios\<close>

text \<open>
  Four elements: a \<open>DIV\<close>, two of its ancestors (a \<open>SECTION\<close> and a custom element
  \<open>MY-LINK-CARD\<close>) and an unrelated \<open>SPAN\<close>; and an \<open>svg\<close> node, which is not an
  \<open>HTMLElement\<close>. The index generator counts from 1.
\<close>

definition N1 :: Node where
  "N1 = \<lparr>nodeId = 1, isHTMLElement = True, nodeName = ''DIV''\<rparr>"

definition N2 :: Node where
  "N2 = \<lparr>nodeId = 2, isHTMLElement = True, nodeName = ''SECTION''\<rparr>"

definition N3 :: Node where
  "N3 = \<lparr>nodeId = 3, isHTMLElement = True, nodeName = ''MY-LINK-CARD''\<rparr>"

definition N4 :: Node where
  "N4 = \<lparr>nodeId = 4, isHTMLElement = True, nodeName = ''SPAN''\<rparr>"

definition N5 :: Node where
  "N5 = \<lparr>nodeId = 5, isHTMLElement = False, nodeName = ''svg''\<rparr>"

definition doc_world :: "real \<Rightarrow> ALFlowlet option \<Rightarrow> unit World" where
  "doc_world t fl =
     \<lparr>performanceAbsoluteNow = t,
      flowletManager_top = fl,
      contains = (\<lambda>a b. a = b \<or> (nodeId b = 1 \<and> (nodeId a = 2 \<or> nodeId a = 3))),
      getReactComponentData = (\<lambda>n. None),
      getElementTextEvent = (\<lambda>n sf. ()),
      getFullName = (\<lambda>fl. case fl of ALFlowlet k \<Rightarrow> if k = 1 then ''/click'' else ''/timer''),
      getNextEventIndex = (\<lambda>k. int k + 1),
      getOrSetAutoLoggingID = (\<lambda>n. if nodeId n = 1 then ''al-1'' else ''al-2''),
      cacheElementReactInfo = False\<rparr>"

definition notify :: "Node \<Rightarrow> string \<Rightarrow> ALChannelSurfaceEventData" where
  "notify n sf = \<lparr>ev_element = n, ev_surface = Some sf, ev_flowlet = None, ev_metadata = MetaRef 0\<rparr>"

definition empty_heap :: "MetaRef \<Rightarrow> ALMetadata" where
  "empty_heap = (\<lambda>r. Map.empty)"

text \<open>
  Scenario states: \<open>scenario_open\<close> after \<open>add(S1, N1)\<close> at time 1000 under flowlet 1,
  \<open>scenario_promoted\<close> after a further \<open>add(S1, N2)\<close> at time 3000 under flowlet 2, and
  \<open>scenario_closed\<close> after \<open>remove(S1, N2)\<close> at time 5000 under flowlet 2.
\<close>

definition S1_record :: "unit SurfaceInfo" where
  "S1_record =
     \<lparr>surface = ''S1'', element = N1, addTime = 1000, removeTime = None, flowlet = None,
      addFlowlet = Some (ALFlowlet 1), removeFlowlet = None, mountEvent = Some 0,
      reactComponentName = None, reactComponentStack = None, elementText = (),
      metadata = MetaRef 0\<rparr>"

definition S1_mount :: "unit ALSurfaceMutationEventData" where
  "S1_mount =
     \<lparr>spread = S1_record\<lparr>mountEvent := None\<rparr>, event = mount_component, eventTimestamp = 1000,
      eventIndex = 1, autoLoggingID = ''al-1'', mountedDuration = None\<rparr>"

definition scenario_open :: "unit State" where
  "scenario_open =
     \<lparr>activeSurfaces = [''S1'' \<mapsto> S1_record],
      heap = empty_heap(MetaRef 0 := [''add_flowlet'' \<mapsto> ''/click'']),
      eventObjects = [S1_mount], channel = [0], indexCalls = 1\<rparr>"

definition S1_promoted :: "unit SurfaceInfo" where
  "S1_promoted = S1_record\<lparr>element := N2, addFlowlet := Some (ALFlowlet 2), addTime := 3000\<rparr>"

definition scenario_promoted :: "unit State" where
  "scenario_promoted = scenario_open\<lparr>activeSurfaces := [''S1'' \<mapsto> S1_promoted]\<rparr>"

definition S1_unmount :: "unit ALSurfaceMutationEventData" where
  "S1_unmount =
     \<lparr>spread = S1_promoted\<lparr>removeFlowlet := Some (ALFlowlet 2), removeTime := Some 5000\<rparr>,
      event = unmount_component, eventTimestamp = 5000, eventIndex = 2,
      autoLoggingID = ''al-2'', mountedDuration = Some 2\<rparr>"

definition scenario_closed :: "unit State" where
  "scenario_closed =
     \<lparr>activeSurfaces = Map.empty,
      heap = empty_heap(MetaRef 0 := [''add_flowlet'' \<mapsto> ''/click'', ''remove_flowlet'' \<mapsto> ''/timer'']),
      eventObjects = [S1_mount, S1_unmount], channel = [0, 1], indexCalls = 2\<rparr>"

definition open_steps :: "(unit World \<times> ALChannelSurfaceEventData \<times> Action) list" where
  "open_steps = [(doc_world 1000 (Some (ALFlowlet 1)), notify N1 ''S1'', added)]"

definition promote_steps :: "(unit World \<times> ALChannelSurfaceEventData \<times> Action) list" where
  "promote_steps = open_steps @ [(doc_world 3000 (Some (ALFlowlet 2)), notify N2 ''S1'', added)]"

definition close_steps :: "(unit World \<times> ALChannelSurfaceEventData \<times> Action) list" where
  "close_steps = promote_steps @ [(doc_world 5000 (Some (ALFlowlet 2)), notify N2 ''S1'', removed)]"

section \<open>The pattern test\<close>

lemma starts_with_prefix: "starts_with p s = prefix p s"
  by (induction p s rule: starts_with.induct) simp_all

lemma regex_test_sublist:
  "regex_LINK_SCRIPT_test s \<longleftrightarrow> sublist ''LINK'' s \<or> sublist ''SCRIPT'' s"
proof (induction s)
  case Nil
  then show ?case by simp
next
  case (Cons c cs)
  show ?case
    unfolding regex_LINK_SCRIPT_test.simps starts_with_prefix Cons.IH
    by (simp only: sublist_Cons_right) blast
qed


section \<open>One notification, case by case\<close>

lemma processNode_untrackable:
  "\<not> trackable (ev_element ev) \<Longrightarrow> processNode w s ev action = Inr s"
  by (auto simp: processNode_def trackable_def Let_def)

lemma processNode_no_surface:
  "ev_surface ev = None \<Longrightarrow> processNode w s ev action = Inr s"
  by (simp add: processNode_def Let_def)

lemma processNode_open:
  assumes "trackable (ev_element ev)" "ev_surface ev = Some sf" "activeSurfaces s sf = None"
  shows "processNode w s ev added =
     Inr (s\<lparr>activeSurfaces := (activeSurfaces s)(sf \<mapsto> (new_info w ev sf)\<lparr>mountEvent := Some (length (eventObjects s))\<rparr>),
            heap := (case flowletManager_top w of Some fl \<Rightarrow> set_metadata (heap s) (ev_metadata ev) ''add_flowlet'' (getFullName w fl)
                     | None \<Rightarrow> heap s),
            eventObjects := eventObjects s @
               [\<lparr>spread = new_info w ev sf, event = mount_component,
                 eventTimestamp = performanceAbsoluteNow w,
                 eventIndex = getNextEventIndex w (indexCalls s),
                 autoLoggingID = getOrSetAutoLoggingID w (ev_element ev),
                 mountedDuration = None\<rparr>],
            channel := channel s @ [length (eventObjects s)],
            indexCalls := Suc (indexCalls s)\<rparr>)"
  using assms
  by (simp add: processNode_def emitMutationEvent_def trackable_def new_info_def Let_def cong: option.case_cong)

lemma processNode_promote:
  assumes "trackable (ev_element ev)" "ev_surface ev = Some sf" "activeSurfaces s sf = Some info"
    "ev_element ev \<noteq> element info" "contains w (ev_element ev) (element info)"
  shows "processNode w s ev added =
     Inr (s\<lparr>activeSurfaces := (activeSurfaces s)
          (sf \<mapsto> info\<lparr>element := ev_element ev, addFlowlet := flowletManager_top w, addTime := performanceAbsoluteNow w\<rparr>)\<rparr>)"
  using assms
  by (simp add: processNode_def trackable_def Let_def)

lemma processNode_added_other:
  assumes "activeSurfaces s sf = Some info" "ev_surface ev = Some sf"
    "ev_element ev = element info \<or> \<not> contains w (ev_element ev) (element info)"
  shows "processNode w s ev added = Inr s"
  using assms
  by (auto simp add: processNode_def Let_def)

lemma processNode_removed_stale:
  assumes "ev_surface ev = Some sf" "activeSurfaces s sf = None \<or> (\<exists>info. activeSurfaces s sf = Some info \<and> element info \<noteq> ev_element ev)"
  shows "processNode w s ev removed = Inr s"
  using assms
  by (auto simp add: processNode_def Let_def)

lemma processNode_close:
  assumes "trackable (ev_element ev)" "ev_surface ev = Some sf" "activeSurfaces s sf = Some info"
    "element info = ev_element ev" "mountEvent info = Some me"
  shows "processNode w s ev removed =
     Inr (s\<lparr>activeSurfaces := (activeSurfaces s)(sf := None),
            heap := (case flowletManager_top w of Some fl \<Rightarrow> set_metadata (heap s) (metadata info) ''remove_flowlet'' (getFullName w fl)
                     | None \<Rightarrow> heap s),
            eventObjects := eventObjects s @
               [\<lparr>spread = info\<lparr>removeFlowlet := flowletManager_top w, removeTime := Some (performanceAbsoluteNow w)\<rparr>,
                 event = unmount_component,
                 eventTimestamp = performanceAbsoluteNow w,
                 eventIndex = getNextEventIndex w (indexCalls s),
                 autoLoggingID = getOrSetAutoLoggingID w (element info),
                 mountedDuration = Some ((performanceAbsoluteNow w - addTime info) / 1000)\<rparr>],
            channel := channel s @ [length (eventObjects s)],
            indexCalls := Suc (indexCalls s)\<rparr>)"
  using assms
  by (cases info) (simp add: processNode_def emitMutationEvent_def trackable_def Let_def cong: option.case_cong)

lemma processNode_close_unopened:
  assumes "trackable (ev_element ev)" "ev_surface ev = Some sf" "activeSurfaces s sf = Some info"
    "element info = ev_element ev" "mountEvent info = None"
  shows "processNode w s ev removed = Inl AssertionFailed"
  using assms
  by (simp add: processNode_def emitMutationEvent_def trackable_def Let_def)


text \<open>The assertion of line 180 fails exactly when the record lacks one of the two fields.\<close>

lemma emitMutationEvent_assertion:
  "emitMutationEvent w removed i s = Inl AssertionFailed \<longleftrightarrow> mountEvent i = None \<or> removeTime i = None"
  by (auto simp: emitMutationEvent_def Let_def split: option.splits)

lemma processNode_cases [case_names ignored opened promoted closed]:
  obtains
    (ignored) "processNode w s ev action = Inr s"
  | (opened) sf where "action = added" "trackable (ev_element ev)" "ev_surface ev = Some sf"
      "activeSurfaces s sf = None"
  | (promoted) sf info where "action = added" "trackable (ev_element ev)" "ev_surface ev = Some sf"
      "activeSurfaces s sf = Some info" "ev_element ev \<noteq> element info"
      "contains w (ev_element ev) (element info)"
  | (closed) sf info where "action = removed" "trackable (ev_element ev)" "ev_surface ev = Some sf"
      "activeSurfaces s sf = Some info" "element info = ev_element ev"
proof (cases "trackable (ev_element ev)")
  case False
  then show ?thesis using ignored processNode_untrackable by blast
next
  case tr: True
  show ?thesis
  proof (cases "ev_surface ev")
    case None
    then show ?thesis using ignored processNode_no_surface by blast
  next
    case (Some sf)
    show ?thesis
    proof (cases action)
      case added
      show ?thesis
      proof (cases "activeSurfaces s sf")
        case None
        then show ?thesis using opened added tr Some by blast
      next
        case (Some info)
        show ?thesis
        proof (cases "ev_element ev \<noteq> element info \<and> contains w (ev_element ev) (element info)")
          case True
          then show ?thesis using promoted added tr \<open>ev_surface ev = Some sf\<close> Some by blast
        next
          case False
          then have "processNode w s ev added = Inr s"
            using processNode_added_other [OF Some \<open>ev_surface ev = Some sf\<close>] by blast
          then show ?thesis using ignored added by blast
        qed
      qed
    next
      case removed
      show ?thesis
      proof (cases "\<exists>info. activeSurfaces s sf = Some info \<and> element info = ev_element ev")
        case True
        then show ?thesis using closed removed tr Some by blast
      next
        case False
        then have "activeSurfaces s sf = None \<or>
            (\<exists>info. activeSurfaces s sf = Some info \<and> element info \<noteq> ev_element ev)"
          by (cases "activeSurfaces s sf") auto
        then have "processNode w s ev removed = Inr s"
          using processNode_removed_stale [OF Some] by blast
        then show ?thesis using ignored removed by blast
      qed
    qed
  qed
qed

lemma record_ok_grow:
  assumes "record_ok s sf info" "eventObjects s' = eventObjects s @ us" "channel s' = channel s @ cs"
  shows "record_ok s' sf info"
  using assms
  by (auto simp: record_ok_def nth_append split: option.splits)

lemma tracker_inv_grow:
  assumes "tracker_inv s"
    and "eventObjects s' = eventObjects s @ us" and "channel s' = channel s @ cs"
    and "\<And>sf info. activeSurfaces s' sf = Some info \<Longrightarrow>
           activeSurfaces s sf = Some info \<or> record_ok s' sf info"
  shows "tracker_inv s'"
  unfolding tracker_inv_def
proof (intro allI impI)
  fix sf info
  assume "activeSurfaces s' sf = Some info"
  from assms(4) [OF this] show "record_ok s' sf info"
  proof
    assume "activeSurfaces s sf = Some info"
    with assms(1) have "record_ok s sf info" by (simp add: tracker_inv_def)
    then show ?thesis by (rule record_ok_grow [OF _ assms(2,3)])
  qed
qed

lemma tracker_inv_step:
  assumes "tracker_inv s"
  shows "\<exists>s'. processNode w s ev action = Inr s' \<and> tracker_inv s'"
proof (cases rule: processNode_cases [where w=w and s=s and ev=ev and action=action])
  case ignored
  then show ?thesis using assms by simp
next
  case (opened sf)
  have "tracker_inv (projr (processNode w s ev added))"
    unfolding processNode_open [OF opened(2-4)]
    by (rule tracker_inv_grow [OF assms, where us = "[_]" and cs = "[_]"])
       (auto simp: record_ok_def new_info_def opened(2) split: if_splits)
  then show ?thesis
    unfolding opened(1) processNode_open [OF opened(2-4)] by simp
next
  case (promoted sf info)
  from assms promoted(4) have ok: "record_ok s sf info" by (simp add: tracker_inv_def)
  have "tracker_inv (projr (processNode w s ev added))"
    unfolding processNode_promote [OF promoted(2-6)]
    by (rule tracker_inv_grow [OF assms, where us = "[]" and cs = "[]"])
       (use ok promoted(2) in \<open>auto simp: record_ok_def split: if_splits option.splits\<close>)
  then show ?thesis
    unfolding promoted(1) processNode_promote [OF promoted(2-6)] by simp
next
  case (closed sf info)
  from assms closed(4) have ok: "record_ok s sf info" by (simp add: tracker_inv_def)
  then obtain me where me: "mountEvent info = Some me"
    by (auto simp: record_ok_def split: option.splits)
  have "tracker_inv (projr (processNode w s ev removed))"
    unfolding processNode_close [OF closed(2-5) me]
    by (rule tracker_inv_grow [OF assms, where us = "[_]" and cs = "[_]"])
       (auto split: if_splits)
  then show ?thesis
    unfolding closed(1) processNode_close [OF closed(2-5) me] by simp
qed

lemma tracker_inv_init: "tracker_inv (init h)"
  by (simp add: tracker_inv_def init_def)

lemma tracker_inv_run:
  assumes "tracker_inv s"
  shows "\<exists>s'. run s steps = Inr s' \<and> tracker_inv s'"
  using assms
proof (induction steps arbitrary: s)
  case Nil
  then show ?case by simp
next
  case (Cons st steps)
  obtain w ev action where st: "st = (w, ev, action)" by (cases st)
  from tracker_inv_step [OF Cons.prems, of w ev action]
  obtain s1 where s1: "processNode w s ev action = Inr s1" "tracker_inv s1" by blast
  from Cons.IH [OF s1(2)] show ?case by (simp add: st s1(1))
qed

lemma reachable_inv: "run (init h) steps = Inr s \<Longrightarrow> tracker_inv s"
  using tracker_inv_run [OF tracker_inv_init, of h steps] by auto


section \<open>The scenarios, evaluated\<close>

lemmas scenario_defs =
  init_def doc_world_def notify_def N1_def N2_def N3_def N4_def N5_def empty_heap_def
  S1_record_def S1_mount_def scenario_open_def S1_promoted_def scenario_promoted_def
  open_steps_def promote_steps_def S1_unmount_def scenario_closed_def

lemmas code_defs = processNode_def emitMutationEvent_def set_metadata_def Let_def

lemma scenario_open_step:
  "processNode (doc_world 1000 (Some (ALFlowlet 1))) (init empty_heap) (notify N1 ''S1'') added
     = Inr scenario_open"
  by (simp add: scenario_defs code_defs)

lemma scenario_promoted_step:
  "processNode (doc_world 3000 (Some (ALFlowlet 2))) scenario_open (notify N2 ''S1'') added
     = Inr scenario_promoted"
  by (simp add: scenario_defs code_defs)

lemma scenario_closed_step:
  "processNode (doc_world 5000 (Some (ALFlowlet 2))) scenario_promoted (notify N2 ''S1'') removed
     = Inr scenario_closed"
  by (simp add: scenario_defs code_defs)

lemma scenario_open_run: "run (init empty_heap) open_steps = Inr scenario_open"
  by (simp only: open_steps_def run.simps scenario_open_step sum.case)

lemma scenario_promoted_run: "run (init empty_heap) promote_steps = Inr scenario_promoted"
  by (simp only: promote_steps_def open_steps_def append.simps run.simps
      scenario_open_step scenario_promoted_step sum.case)

lemma scenario_closed_run: "run (init empty_heap) close_steps = Inr scenario_closed"
  by (simp only: close_steps_def promote_steps_def open_steps_def append.simps run.simps
      scenario_open_step scenario_promoted_step scenario_closed_step sum.case)

lemma trackable_doc: "trackable N1" "trackable N2" "\<not> trackable N3" "trackable N4"
  by (simp_all add: trackable_def scenario_defs)

section \<open>Notification sequences\<close>

lemma run_append:
  "run s (xs @ ys) = (case run s xs of Inl e \<Rightarrow> Inl e | Inr s' \<Rightarrow> run s' ys)"
  by (induction xs arbitrary: s) (auto split: sum.splits)

lemma run_snoc:
  "run s (xs @ [(w, ev, action)]) = Inr s' \<longleftrightarrow>
     (\<exists>s1. run s xs = Inr s1 \<and> processNode w s1 ev action = Inr s')"
  by (auto simp: run_append split: sum.splits)

lemma index_step:
  assumes inv: "tracker_inv s"
    and gen: "getNextEventIndex w = gen"
    and cnt: "indexCalls s = length (eventObjects s)"
    and chn: "channel s = [0..<length (eventObjects s)]"
    and idx: "map eventIndex (eventObjects s) = map gen [0..<length (eventObjects s)]"
    and step: "processNode w s ev action = Inr s'"
  shows "indexCalls s' = length (eventObjects s') \<and>
         channel s' = [0..<length (eventObjects s')] \<and>
         map eventIndex (eventObjects s') = map gen [0..<length (eventObjects s')]"
proof (cases rule: processNode_cases [where w=w and s=s and ev=ev and action=action])
  case ignored
  with step cnt chn idx show ?thesis by simp
next
  case (opened sf)
  from step have "s' = projr (processNode w s ev added)" by (simp add: opened(1))
  then show ?thesis
    unfolding processNode_open [OF opened(2-4)]
    using gen cnt chn idx by simp
next
  case (promoted sf info)
  from step have "s' = projr (processNode w s ev added)" by (simp add: promoted(1))
  then show ?thesis
    unfolding processNode_promote [OF promoted(2-6)]
    using cnt chn idx by simp
next
  case (closed sf info)
  from inv closed(4) obtain me where me: "mountEvent info = Some me"
    by (auto simp: tracker_inv_def record_ok_def split: option.splits)
  from step have "s' = projr (processNode w s ev removed)" by (simp add: closed(1))
  then show ?thesis
    unfolding processNode_close [OF closed(2-5) me]
    using gen cnt chn idx by simp
qed

lemma index_run:
  assumes "tracker_inv s"
    and "\<forall>st \<in> set steps. getNextEventIndex (fst st) = gen"
    and "indexCalls s = length (eventObjects s)"
    and "channel s = [0..<length (eventObjects s)]"
    and "map eventIndex (eventObjects s) = map gen [0..<length (eventObjects s)]"
    and "run s steps = Inr s'"
  shows "indexCalls s' = length (eventObjects s') \<and>
         channel s' = [0..<length (eventObjects s')] \<and>
         map eventIndex (eventObjects s') = map gen [0..<length (eventObjects s')]"
  using assms
proof (induction steps arbitrary: s)
  case Nil
  then show ?case by simp
next
  case (Cons st steps)
  obtain w ev action where st: "st = (w, ev, action)" by (cases st)
  from tracker_inv_step [OF Cons.prems(1), of w ev action]
  obtain s1 where s1: "processNode w s ev action = Inr s1" "tracker_inv s1" by blast
  from Cons.prems(2) have g: "getNextEventIndex w = gen" by (simp add: st)
  from index_step [OF Cons.prems(1) g Cons.prems(3-5) s1(1)]
  have i1: "indexCalls s1 = length (eventObjects s1)" "channel s1 = [0..<length (eventObjects s1)]"
    "map eventIndex (eventObjects s1) = map gen [0..<length (eventObjects s1)]"
    by simp_all
  from Cons.prems(6) have r: "run s1 steps = Inr s'" by (simp add: st s1(1))
  from Cons.prems(2) have g': "\<forall>st \<in> set steps. getNextEventIndex (fst st) = gen" by simp
  show ?case by (rule Cons.IH [OF s1(2) g' i1 r])
qed

lemma emittedIndices_all:
  assumes "channel s = [0..<length (eventObjects s)]"
  shows "emittedIndices s = map eventIndex (eventObjects s)"
proof -
  have "emittedIndices s = map eventIndex (map ((!) (eventObjects s)) [0..<length (eventObjects s)])"
    by (simp add: emittedIndices_def assms)
  then show ?thesis by (simp only: map_nth)
qed

lemma sorted_wrt_strict_gen:
  assumes "\<forall>i j. i < j \<longrightarrow> gen i < (gen j :: int)"
  shows "sorted_wrt (<) (map gen [0..<n])"
proof -
  have "sorted_wrt (<) [0..<n]" by simp
  then have "sorted_wrt (\<lambda>i j. gen i < gen j) [0..<n]"
    by (rule sorted_wrt_mono_rel [rotated]) (use assms in blast)
  then show ?thesis by (simp add: sorted_wrt_map)
qed

lemma time_step:
  assumes inv: "tracker_inv s"
    and adds: "\<forall>sf info. activeSurfaces s sf = Some info \<longrightarrow> addTime info \<in> T"
    and le: "\<forall>t \<in> T. t \<le> performanceAbsoluteNow w"
    and evs: "\<forall>u \<in> set (eventObjects s). event u = unmount_component \<longrightarrow> duration_ok u"
    and step: "processNode w s ev action = Inr s'"
  shows "(\<forall>sf info. activeSurfaces s' sf = Some info \<longrightarrow> addTime info \<in> insert (performanceAbsoluteNow w) T) \<and>
         (\<forall>u \<in> set (eventObjects s'). event u = unmount_component \<longrightarrow> duration_ok u)"
proof (cases rule: processNode_cases [where w=w and s=s and ev=ev and action=action])
  case ignored
  with step adds evs show ?thesis by auto
next
  case (opened sf)
  from step have "s' = projr (processNode w s ev added)" by (simp add: opened(1))
  then show ?thesis
    unfolding processNode_open [OF opened(2-4)]
    using adds evs by (auto simp: new_info_def split: if_splits)
next
  case (promoted sf info)
  from step have "s' = projr (processNode w s ev added)" by (simp add: promoted(1))
  then show ?thesis
    unfolding processNode_promote [OF promoted(2-6)]
    using adds evs by (auto split: if_splits)
next
  case (closed sf info)
  from inv closed(4) obtain me where me: "mountEvent info = Some me"
    by (auto simp: tracker_inv_def record_ok_def split: option.splits)
  from adds closed(4) le have "addTime info \<le> performanceAbsoluteNow w" by blast
  moreover from step have "s' = projr (processNode w s ev removed)" by (simp add: closed(1))
  ultimately show ?thesis
    unfolding processNode_close [OF closed(2-5) me]
    using adds evs by (auto simp: duration_ok_def split: if_splits)
qed

lemma time_run:
  assumes "run (init h) steps = Inr s" and "sorted (timestamps steps)"
  shows "(\<forall>sf info. activeSurfaces s sf = Some info \<longrightarrow> addTime info \<in> set (timestamps steps)) \<and>
         (\<forall>u \<in> set (eventObjects s). event u = unmount_component \<longrightarrow> duration_ok u)"
  using assms
proof (induction steps arbitrary: s rule: rev_induct)
  case Nil
  then show ?case by (auto simp: init_def)
next
  case (snoc st steps)
  obtain w ev action where st: "st = (w, ev, action)" by (cases st)
  from snoc.prems(1) obtain s1 where s1: "run (init h) steps = Inr s1"
    and step: "processNode w s1 ev action = Inr s"
    unfolding st run_snoc by blast
  from snoc.prems(2) have srt: "sorted (timestamps steps)"
    and le: "\<forall>t \<in> set (timestamps steps). t \<le> performanceAbsoluteNow w"
    by (auto simp: timestamps_def st sorted_append)
  from snoc.IH [OF s1 srt]
  have adds: "\<forall>sf info. activeSurfaces s1 sf = Some info \<longrightarrow> addTime info \<in> set (timestamps steps)"
    and evs: "\<forall>u \<in> set (eventObjects s1). event u = unmount_component \<longrightarrow> duration_ok u"
    by blast+
  have ts: "set (timestamps (steps @ [st])) = insert (performanceAbsoluteNow w) (set (timestamps steps))"
    by (simp add: timestamps_def st)
  show ?case
    unfolding ts
    by (rule time_step [OF reachable_inv [OF s1] adds le evs step])
qed

section \<open>The claims\<close>

text \<open>
  C1. In every reachable state, a \<open>removed\<close> notification for a surface with an open record
  whose node is the record's current \<open>referenceNode\<close> makes \<open>processNode\<close> stamp
  \<open>removeFlowlet\<close> with the top of the flowlet stack and \<open>removeTime\<close> with the timestamp
  taken on entry, delete the record from the live map, and emit exactly one event: an
  unmount event whose \<open>eventTimestamp\<close> is that \<open>removeTime\<close> and whose \<open>mountEvent\<close> is the
  address held by the record, the address of a mount event emitted earlier. Afterwards the
  map has no record for the surface.
\<close>

theorem C1_matching_remove_closes_and_emits_unmount:
  assumes "run (init h) steps = Inr s"
    and "activeSurfaces s sf = Some info"
    and "ev_surface ev = Some sf"
    and "ev_element ev = element info"
  shows "\<exists>s' u me.
      processNode w s ev removed = Inr s' \<and>
      activeSurfaces s' = (activeSurfaces s)(sf := None) \<and>
      activeSurfaces s' sf = None \<and>
      eventObjects s' = eventObjects s @ [u] \<and>
      channel s' = channel s @ [length (eventObjects s)] \<and>
      spread u = info\<lparr>removeFlowlet := flowletManager_top w,
                        removeTime := Some (performanceAbsoluteNow w)\<rparr> \<and>
      removeFlowlet (spread u) = flowletManager_top w \<and>
      removeTime (spread u) = Some (performanceAbsoluteNow w) \<and>
      event u = unmount_component \<and>
      eventTimestamp u = performanceAbsoluteNow w \<and>
      mountEvent (spread u) = Some me \<and>
      mountEvent info = Some me \<and>
      me < length (eventObjects s) \<and>
      me \<in> set (channel s) \<and>
      event (eventObjects s ! me) = mount_component \<and>
      eventObjects s' ! me = eventObjects s ! me"
proof -
  from reachable_inv [OF assms(1)] assms(2) have ok: "record_ok s sf info"
    by (simp add: tracker_inv_def)
  then obtain me where me: "mountEvent info = Some me" "me < length (eventObjects s)"
      "me \<in> set (channel s)" "event (eventObjects s ! me) = mount_component"
    by (auto simp: record_ok_def split: option.splits)
  from ok assms(4) have tr: "trackable (ev_element ev)" by (simp add: record_ok_def)
  let ?u = "\<lparr>spread = info\<lparr>removeFlowlet := flowletManager_top w,
                              removeTime := Some (performanceAbsoluteNow w)\<rparr>,
              event = unmount_component,
              eventTimestamp = performanceAbsoluteNow w,
              eventIndex = getNextEventIndex w (indexCalls s),
              autoLoggingID = getOrSetAutoLoggingID w (element info),
              mountedDuration = Some ((performanceAbsoluteNow w - addTime info) / 1000)\<rparr>"
  show ?thesis
    apply (rule exI [where x = "projr (processNode w s ev removed)"])
    apply (rule exI [where x = ?u])
    apply (rule exI [where x = me])
    unfolding processNode_close [OF tr assms(3,2) assms(4) [symmetric] me(1)]
    using me by (simp add: nth_append)
qed

theorem C1_witness:
  "run (init empty_heap) promote_steps = Inr scenario_promoted \<and>
   activeSurfaces scenario_promoted ''S1'' = Some S1_promoted \<and>
   ev_surface (notify N2 ''S1'') = Some ''S1'' \<and>
   ev_element (notify N2 ''S1'') = element S1_promoted \<and>
   (\<exists>s' u. processNode (doc_world 5000 (Some (ALFlowlet 2))) scenario_promoted (notify N2 ''S1'') removed
        = Inr s' \<and>
      activeSurfaces s' ''S1'' = None \<and>
      eventObjects s' = [S1_mount, u] \<and> channel s' = [0, 1] \<and>
      event u = unmount_component \<and> eventTimestamp u = 5000 \<and>
      removeTime (spread u) = Some 5000 \<and> removeFlowlet (spread u) = Some (ALFlowlet 2) \<and>
      mountEvent (spread u) = Some 0)"
proof -
  have h2: "activeSurfaces scenario_promoted ''S1'' = Some S1_promoted"
    by (simp add: scenario_promoted_def)
  have h3: "ev_surface (notify N2 ''S1'') = Some ''S1''" by (simp add: notify_def)
  have h4: "ev_element (notify N2 ''S1'') = element S1_promoted" by (simp add: scenario_defs)
  from C1_matching_remove_closes_and_emits_unmount [OF scenario_promoted_run h2 h3 h4,
      of "doc_world 5000 (Some (ALFlowlet 2))"]
  obtain s' u me where
    "processNode (doc_world 5000 (Some (ALFlowlet 2))) scenario_promoted (notify N2 ''S1'') removed = Inr s'"
    "activeSurfaces s' ''S1'' = None"
    "eventObjects s' = eventObjects scenario_promoted @ [u]"
    "channel s' = channel scenario_promoted @ [length (eventObjects scenario_promoted)]"
    "event u = unmount_component"
    "eventTimestamp u = performanceAbsoluteNow (doc_world 5000 (Some (ALFlowlet 2)))"
    "removeTime (spread u) = Some (performanceAbsoluteNow (doc_world 5000 (Some (ALFlowlet 2))))"
    "removeFlowlet (spread u) = flowletManager_top (doc_world 5000 (Some (ALFlowlet 2)))"
    "mountEvent (spread u) = Some me" "mountEvent S1_promoted = Some me"
    by blast
  then have "\<exists>s' u. processNode (doc_world 5000 (Some (ALFlowlet 2))) scenario_promoted (notify N2 ''S1'') removed
        = Inr s' \<and>
      activeSurfaces s' ''S1'' = None \<and>
      eventObjects s' = [S1_mount, u] \<and> channel s' = [0, 1] \<and>
      event u = unmount_component \<and> eventTimestamp u = 5000 \<and>
      removeTime (spread u) = Some 5000 \<and> removeFlowlet (spread u) = Some (ALFlowlet 2) \<and>
      mountEvent (spread u) = Some 0"
    by (simp add: scenario_promoted_def scenario_open_def S1_promoted_def S1_record_def doc_world_def)
  with scenario_promoted_run h2 h3 h4 show ?thesis by blast
qed

text \<open>
  C2. An \<open>added\<close> notification that carries a trackable \<open>HTMLElement\<close> and a surface id
  without an open record makes \<open>processNode\<close> build a record, put it into the live map
  and emit exactly one event, a mount event whose \<open>eventTimestamp\<close> is the record's
  \<open>addTime\<close>. The record holds the introspected component data and the element's text
  only when \<open>cacheElementReactInfo\<close> is set; otherwise the component fields are absent
  and the text fields are those of \<open>getElementTextEvent(null, surface)\<close>.
\<close>

theorem C2_first_add_opens_and_emits_mount:
  assumes "isHTMLElement (ev_element ev)"
    and "\<not> regex_LINK_SCRIPT_test (nodeName (ev_element ev))"
    and "ev_surface ev = Some sf"
    and "activeSurfaces s sf = None"
  shows "\<exists>s' info u.
      processNode w s ev added = Inr s' \<and>
      activeSurfaces s' = (activeSurfaces s)(sf \<mapsto> info) \<and>
      surface info = sf \<and> element info = ev_element ev \<and>
      addTime info = performanceAbsoluteNow w \<and> addFlowlet info = flowletManager_top w \<and>
      metadata info = ev_metadata ev \<and>
      reactComponentName info =
        (if cacheElementReactInfo w then map_option name (getReactComponentData w (ev_element ev)) else None) \<and>
      reactComponentStack info =
        (if cacheElementReactInfo w then map_option stack (getReactComponentData w (ev_element ev)) else None) \<and>
      elementText info =
        getElementTextEvent w (if cacheElementReactInfo w then Some (ev_element ev) else None) sf \<and>
      mountEvent info = Some (length (eventObjects s)) \<and>
      eventObjects s' = eventObjects s @ [u] \<and>
      channel s' = channel s @ [length (eventObjects s)] \<and>
      event u = mount_component \<and>
      eventTimestamp u = addTime info \<and>
      spread u = info\<lparr>mountEvent := None\<rparr>"
proof -
  have tr: "trackable (ev_element ev)" using assms(1,2) by (simp add: trackable_def)
  let ?u = "\<lparr>spread = new_info w ev sf, event = mount_component,
              eventTimestamp = performanceAbsoluteNow w,
              eventIndex = getNextEventIndex w (indexCalls s),
              autoLoggingID = getOrSetAutoLoggingID w (ev_element ev),
              mountedDuration = None\<rparr>"
  show ?thesis
    apply (rule exI [where x = "projr (processNode w s ev added)"])
    apply (rule exI [where x = "(new_info w ev sf)\<lparr>mountEvent := Some (length (eventObjects s))\<rparr>"])
    apply (rule exI [where x = ?u])
    unfolding processNode_open [OF tr assms(3,4)]
    by (simp add: new_info_def)
qed

theorem C2_witness:
  "isHTMLElement (ev_element (notify N1 ''S1'')) \<and>
   \<not> regex_LINK_SCRIPT_test (nodeName (ev_element (notify N1 ''S1''))) \<and>
   ev_surface (notify N1 ''S1'') = Some ''S1'' \<and>
   activeSurfaces (init empty_heap :: unit State) ''S1'' = None \<and>
   processNode (doc_world 1000 (Some (ALFlowlet 1))) (init empty_heap) (notify N1 ''S1'') added
     = Inr scenario_open \<and>
   activeSurfaces scenario_open ''S1'' = Some S1_record \<and>
   eventObjects scenario_open = [S1_mount] \<and> channel scenario_open = [0] \<and>
   event S1_mount = mount_component \<and> eventTimestamp S1_mount = addTime S1_record"
proof -
  have h1: "isHTMLElement (ev_element (notify N1 ''S1''))" by (simp add: scenario_defs)
  have h2: "\<not> regex_LINK_SCRIPT_test (nodeName (ev_element (notify N1 ''S1'')))"
    by (simp add: scenario_defs)
  have h3: "ev_surface (notify N1 ''S1'') = Some ''S1''" by (simp add: scenario_defs)
  have h4: "activeSurfaces (init empty_heap :: unit State) ''S1'' = None" by (simp add: scenario_defs)
  have r: "processNode (doc_world 1000 (Some (ALFlowlet 1))) (init empty_heap) (notify N1 ''S1'') added
     = Inr scenario_open"
    by (rule scenario_open_step)
  from C2_first_add_opens_and_emits_mount [OF h1 h2 h3 h4, of "doc_world 1000 (Some (ALFlowlet 1))"]
  obtain s' info u where
    "processNode (doc_world 1000 (Some (ALFlowlet 1))) (init empty_heap) (notify N1 ''S1'') added = Inr s'"
    "activeSurfaces s' ''S1'' = Some info" "eventObjects s' = eventObjects (init empty_heap) @ [u]"
    "event u = mount_component" "eventTimestamp u = addTime info"
    by auto
  with r have "event S1_mount = mount_component \<and> eventTimestamp S1_mount = addTime S1_record"
    by (auto simp: scenario_open_def init_def)
  with h1 h2 h3 h4 r show ?thesis by (simp add: scenario_open_def)
qed

text \<open>
  C3 (as amended). An \<open>added\<close> notification that carries a trackable \<open>HTMLElement\<close> for a
  surface with an open record, where the node differs from the record's \<open>referenceNode\<close>
  and contains it, updates the record's \<open>referenceNode\<close>, \<open>addFlowlet\<close> and \<open>addTime\<close> in
  place and changes nothing else: no event object is created and nothing is emitted.
  Whenever a call emits, it is a first open (no record for the surface) or a matching
  close (the notified node is the record's reference node).

  Without the guard the statement fails: a container that the guard of line 82 rejects,
  such as the custom element \<open>MY-LINK-CARD\<close>, differs from the reference node and contains
  it, and the record keeps its reference node.
\<close>

theorem C3_promotion_updates_in_place_without_emitting:
  "(isHTMLElement (ev_element ev) \<and> \<not> regex_LINK_SCRIPT_test (nodeName (ev_element ev)) \<and>
    ev_surface ev = Some sf \<and> activeSurfaces s sf = Some info \<and>
    ev_element ev \<noteq> element info \<and> contains w (ev_element ev) (element info) \<longrightarrow>
      processNode w s ev added =
        Inr (s\<lparr>activeSurfaces := (activeSurfaces s)
               (sf \<mapsto> info\<lparr>element := ev_element ev,
                             addFlowlet := flowletManager_top w,
                             addTime := performanceAbsoluteNow w\<rparr>)\<rparr>)) \<and>
   (processNode w s ev action = Inr s' \<and>
    (channel s' \<noteq> channel s \<or> eventObjects s' \<noteq> eventObjects s) \<longrightarrow>
      (\<exists>sf'. ev_surface ev = Some sf' \<and> trackable (ev_element ev) \<and>
         (action = added \<and> activeSurfaces s sf' = None \<or>
          action = removed \<and>
            (\<exists>info'. activeSurfaces s sf' = Some info' \<and> element info' = ev_element ev))))"
proof (intro conjI impI)
  assume a: "isHTMLElement (ev_element ev) \<and> \<not> regex_LINK_SCRIPT_test (nodeName (ev_element ev)) \<and>
    ev_surface ev = Some sf \<and> activeSurfaces s sf = Some info \<and>
    ev_element ev \<noteq> element info \<and> contains w (ev_element ev) (element info)"
  then have tr: "trackable (ev_element ev)" by (simp add: trackable_def)
  from a show "processNode w s ev added =
        Inr (s\<lparr>activeSurfaces := (activeSurfaces s)
               (sf \<mapsto> info\<lparr>element := ev_element ev,
                             addFlowlet := flowletManager_top w,
                             addTime := performanceAbsoluteNow w\<rparr>)\<rparr>)"
    using processNode_promote [OF tr, of sf s info w] by blast
next
  assume b: "processNode w s ev action = Inr s' \<and>
    (channel s' \<noteq> channel s \<or> eventObjects s' \<noteq> eventObjects s)"
  show "\<exists>sf'. ev_surface ev = Some sf' \<and> trackable (ev_element ev) \<and>
         (action = added \<and> activeSurfaces s sf' = None \<or>
          action = removed \<and>
            (\<exists>info'. activeSurfaces s sf' = Some info' \<and> element info' = ev_element ev))"
  proof (cases rule: processNode_cases [where w=w and s=s and ev=ev and action=action])
    case ignored
    with b show ?thesis by auto
  next
    case (opened sf0)
    then show ?thesis by blast
  next
    case (promoted sf0 info0)
    from b have "s' = projr (processNode w s ev added)" by (simp add: promoted(1))
    then have "channel s' = channel s \<and> eventObjects s' = eventObjects s"
      unfolding processNode_promote [OF promoted(2-6)] by simp
    with b show ?thesis by blast
  next
    case (closed sf0 info0)
    then show ?thesis by blast
  qed
qed

theorem C3_witness:
  "processNode (doc_world 3000 (Some (ALFlowlet 2))) scenario_open (notify N2 ''S1'') added
     = Inr scenario_promoted \<and>
   channel scenario_promoted = channel scenario_open \<and>
   eventObjects scenario_promoted = eventObjects scenario_open \<and>
   activeSurfaces scenario_promoted ''S1'' =
     Some (S1_record\<lparr>element := N2, addFlowlet := Some (ALFlowlet 2), addTime := 3000\<rparr>) \<and>
   channel scenario_open \<noteq> channel (init empty_heap :: unit State) \<and>
   activeSurfaces (init empty_heap :: unit State) ''S1'' = None"
proof -
  have h: "isHTMLElement (ev_element (notify N2 ''S1'')) \<and>
      \<not> regex_LINK_SCRIPT_test (nodeName (ev_element (notify N2 ''S1''))) \<and>
      ev_surface (notify N2 ''S1'') = Some ''S1'' \<and>
      activeSurfaces scenario_open ''S1'' = Some S1_record \<and>
      ev_element (notify N2 ''S1'') \<noteq> element S1_record \<and>
      contains (doc_world 3000 (Some (ALFlowlet 2))) (ev_element (notify N2 ''S1'')) (element S1_record)"
    by (simp add: scenario_defs)
  have e: "processNode (doc_world 1000 (Some (ALFlowlet 1))) (init empty_heap) (notify N1 ''S1'') added
      = Inr scenario_open \<and>
     (channel scenario_open \<noteq> channel (init empty_heap :: unit State) \<or>
      eventObjects scenario_open \<noteq> eventObjects (init empty_heap :: unit State))"
    using scenario_open_step by (simp add: scenario_open_def init_def)
  have p: "processNode (doc_world 3000 (Some (ALFlowlet 2))) scenario_open (notify N2 ''S1'') added =
      Inr (scenario_open\<lparr>activeSurfaces := (activeSurfaces scenario_open)
             (''S1'' \<mapsto> S1_record\<lparr>element := ev_element (notify N2 ''S1''),
                 addFlowlet := flowletManager_top (doc_world 3000 (Some (ALFlowlet 2))),
                 addTime := performanceAbsoluteNow (doc_world 3000 (Some (ALFlowlet 2)))\<rparr>)\<rparr>)"
    using C3_promotion_updates_in_place_without_emitting
      [where ev = "notify N2 ''S1''" and sf = "''S1''" and s = scenario_open and info = S1_record
         and w = "doc_world 3000 (Some (ALFlowlet 2))"] h
    by blast
  have q: "\<exists>sf'. ev_surface (notify N1 ''S1'') = Some sf' \<and>
      activeSurfaces (init empty_heap :: unit State) sf' = None"
    using C3_promotion_updates_in_place_without_emitting
      [where w = "doc_world 1000 (Some (ALFlowlet 1))" and s = "init empty_heap"
         and ev = "notify N1 ''S1''" and action = added and s' = scenario_open]
      e by blast
  from p q show ?thesis
    by (simp add: scenario_defs)
qed

theorem C3_counterexample:
  "run (init empty_heap) open_steps = Inr scenario_open \<and>
   activeSurfaces scenario_open ''S1'' = Some S1_record \<and>
   ev_surface (notify N3 ''S1'') = Some ''S1'' \<and>
   ev_element (notify N3 ''S1'') \<noteq> element S1_record \<and>
   contains (doc_world 3000 (Some (ALFlowlet 2))) (ev_element (notify N3 ''S1'')) (element S1_record) \<and>
   processNode (doc_world 3000 (Some (ALFlowlet 2))) scenario_open (notify N3 ''S1'') added
     = Inr scenario_open \<and>
   element S1_record \<noteq> ev_element (notify N3 ''S1'') \<and>
   addTime S1_record \<noteq> performanceAbsoluteNow (doc_world 3000 (Some (ALFlowlet 2))) \<and>
   addFlowlet S1_record \<noteq> flowletManager_top (doc_world 3000 (Some (ALFlowlet 2)))"
  using scenario_open_run
  by (simp add: scenario_defs code_defs)

text \<open>
  C4. From the empty map every notification sequence runs to the end without the assertion
  of line 180 failing (the collaborators are total functions here, so they return). In the
  state reached every record of the live map has a \<open>mountEvent\<close>; the call of line 142,
  made on such a record after line 132 has stamped its \<open>removeTime\<close>, passes the
  assertion; and no further notification makes the assertion fail.
\<close>

theorem C4_mount_event_set_and_assertion_never_fires:
  "\<exists>s. run (init h) steps = Inr s \<and>
       (\<forall>sf info. activeSurfaces s sf = Some info \<longrightarrow> mountEvent info \<noteq> None) \<and>
       (\<forall>w sf info s0. activeSurfaces s sf = Some info \<longrightarrow>
          emitMutationEvent w removed
            (info\<lparr>removeFlowlet := flowletManager_top w, removeTime := Some (performanceAbsoluteNow w)\<rparr>) s0
            \<noteq> Inl AssertionFailed) \<and>
       (\<forall>w ev action. processNode w s ev action \<noteq> Inl AssertionFailed)"
proof -
  from tracker_inv_run [OF tracker_inv_init, of h steps]
  obtain s where s: "run (init h) steps = Inr s" "tracker_inv s" by blast
  have m: "mountEvent info \<noteq> None" if "activeSurfaces s sf = Some info" for sf info
    using s(2) that by (auto simp: tracker_inv_def record_ok_def split: option.splits)
  have "emitMutationEvent w removed
            (info\<lparr>removeFlowlet := flowletManager_top w, removeTime := Some (performanceAbsoluteNow w)\<rparr>) s0
            \<noteq> Inl AssertionFailed" if "activeSurfaces s sf = Some info" for w sf info s0
    using m [OF that] by (simp add: emitMutationEvent_assertion)
  moreover have "processNode w s ev action \<noteq> Inl AssertionFailed" for w ev action
    using tracker_inv_step [OF s(2), of w ev action] by auto
  ultimately show ?thesis using s(1) m by blast
qed

theorem C4_witness:
  "run (init empty_heap) promote_steps = Inr scenario_promoted \<and>
   activeSurfaces scenario_promoted ''S1'' = Some S1_promoted \<and>
   mountEvent S1_promoted \<noteq> None \<and>
   processNode (doc_world 5000 None) scenario_promoted (notify N2 ''S1'') removed \<noteq> Inl AssertionFailed"
proof -
  have h2: "activeSurfaces scenario_promoted ''S1'' = Some S1_promoted"
    by (simp add: scenario_promoted_def)
  from C4_mount_event_set_and_assertion_never_fires [of empty_heap promote_steps]
  obtain s where s: "run (init empty_heap) promote_steps = Inr s"
    "\<forall>sf info. activeSurfaces s sf = Some info \<longrightarrow> mountEvent info \<noteq> None"
    "\<forall>w ev action. processNode w s ev action \<noteq> Inl AssertionFailed"
    by blast
  from s(1) scenario_promoted_run have e: "s = scenario_promoted" by simp
  from s(2) h2 e have "mountEvent S1_promoted \<noteq> None" by blast
  moreover from s(3) e
  have "processNode (doc_world 5000 None) scenario_promoted (notify N2 ''S1'') removed \<noteq> Inl AssertionFailed"
    by blast
  ultimately show ?thesis using scenario_promoted_run h2 by blast
qed

text \<open>
  C5. Over any notification sequence whose clock readings do not decrease, a closing
  notification creates an unmount event with \<open>mountedDuration = (removeTime - addTime) / 1000\<close>,
  where \<open>removeTime\<close> is the timestamp of the closing call and \<open>addTime\<close> is the one the
  record \<open>info\<close> holds in the map at that moment (after an ancestor promotion, the
  promotion's timestamp and not that of the first open); the duration is not negative,
  and the same holds of every unmount event created so far. Timestamps are reals here.
\<close>

theorem C5_mounted_duration_uses_current_addTime_and_is_nonnegative:
  assumes "run (init h) steps = Inr s"
    and "sorted (timestamps (steps @ [(w, ev, removed)]))"
    and "activeSurfaces s sf = Some info"
    and "ev_surface ev = Some sf"
    and "ev_element ev = element info"
  shows "\<exists>s' u. processNode w s ev removed = Inr s' \<and>
            eventObjects s' = eventObjects s @ [u] \<and>
            event u = unmount_component \<and>
            addTime (spread u) = addTime info \<and>
            removeTime (spread u) = Some (performanceAbsoluteNow w) \<and>
            mountedDuration u = Some ((performanceAbsoluteNow w - addTime info) / 1000) \<and>
            0 \<le> (performanceAbsoluteNow w - addTime info) / 1000 \<and>
            (\<forall>v \<in> set (eventObjects s'). event v = unmount_component \<longrightarrow> duration_ok v)"
proof -
  from assms(2) have srt: "sorted (timestamps steps)"
    and le: "\<forall>t \<in> set (timestamps steps). t \<le> performanceAbsoluteNow w"
    by (auto simp: timestamps_def sorted_append)
  from time_run [OF assms(1) srt]
  have adds: "\<forall>sf info. activeSurfaces s sf = Some info \<longrightarrow> addTime info \<in> set (timestamps steps)"
    and evs: "\<forall>u \<in> set (eventObjects s). event u = unmount_component \<longrightarrow> duration_ok u"
    by blast+
  from adds assms(3) le have nonneg: "addTime info \<le> performanceAbsoluteNow w" by blast
  from reachable_inv [OF assms(1)] assms(3) have ok: "record_ok s sf info"
    by (simp add: tracker_inv_def)
  then obtain me where me: "mountEvent info = Some me"
    by (auto simp: record_ok_def split: option.splits)
  from ok assms(5) have tr: "trackable (ev_element ev)" by (simp add: record_ok_def)
  let ?u = "\<lparr>spread = info\<lparr>removeFlowlet := flowletManager_top w,
                              removeTime := Some (performanceAbsoluteNow w)\<rparr>,
              event = unmount_component,
              eventTimestamp = performanceAbsoluteNow w,
              eventIndex = getNextEventIndex w (indexCalls s),
              autoLoggingID = getOrSetAutoLoggingID w (element info),
              mountedDuration = Some ((performanceAbsoluteNow w - addTime info) / 1000)\<rparr>"
  show ?thesis
    apply (rule exI [where x = "projr (processNode w s ev removed)"])
    apply (rule exI [where x = ?u])
    unfolding processNode_close [OF tr assms(4,3) assms(5) [symmetric] me]
    using nonneg evs by (auto simp: duration_ok_def)
qed

theorem C5_witness:
  "run (init empty_heap) promote_steps = Inr scenario_promoted \<and>
   sorted (timestamps (promote_steps @ [(doc_world 5000 (Some (ALFlowlet 2)), notify N2 ''S1'', removed)])) \<and>
   activeSurfaces scenario_promoted ''S1'' = Some S1_promoted \<and>
   ev_surface (notify N2 ''S1'') = Some ''S1'' \<and>
   ev_element (notify N2 ''S1'') = element S1_promoted \<and>
   addTime S1_record = 1000 \<and> addTime S1_promoted = 3000 \<and>
   processNode (doc_world 5000 (Some (ALFlowlet 2))) scenario_promoted (notify N2 ''S1'') removed
     = Inr scenario_closed \<and>
   eventObjects scenario_closed = eventObjects scenario_promoted @ [S1_unmount] \<and>
   mountedDuration S1_unmount = Some ((5000 - 3000) / 1000) \<and>
   mountedDuration S1_unmount = Some 2 \<and>
   (0::real) \<le> (5000 - 3000) / 1000 \<and>
   duration_ok S1_unmount"
proof -
  have h2: "sorted (timestamps (promote_steps @ [(doc_world 5000 (Some (ALFlowlet 2)), notify N2 ''S1'', removed)]))"
    by (simp add: timestamps_def promote_steps_def open_steps_def doc_world_def)
  have h3: "activeSurfaces scenario_promoted ''S1'' = Some S1_promoted"
    by (simp add: scenario_promoted_def)
  have h4: "ev_surface (notify N2 ''S1'') = Some ''S1''" by (simp add: notify_def)
  have h5: "ev_element (notify N2 ''S1'') = element S1_promoted" by (simp add: scenario_defs)
  from C5_mounted_duration_uses_current_addTime_and_is_nonnegative
    [OF scenario_promoted_run h2 h3 h4 h5]
  obtain s' u where p:
    "processNode (doc_world 5000 (Some (ALFlowlet 2))) scenario_promoted (notify N2 ''S1'') removed = Inr s'"
    and e: "eventObjects s' = eventObjects scenario_promoted @ [u]"
    and d: "mountedDuration u = Some ((performanceAbsoluteNow (doc_world 5000 (Some (ALFlowlet 2)))
        - addTime S1_promoted) / 1000)"
    and n: "0 \<le> (performanceAbsoluteNow (doc_world 5000 (Some (ALFlowlet 2))) - addTime S1_promoted) / 1000"
    and a: "\<forall>v \<in> set (eventObjects s'). event v = unmount_component \<longrightarrow> duration_ok v"
    by blast
  from p scenario_closed_step have s': "s' = scenario_closed" by simp
  from e have u: "u = S1_unmount"
    unfolding s' by (simp add: scenario_closed_def scenario_promoted_def scenario_open_def)
  from e d n have "eventObjects scenario_closed = eventObjects scenario_promoted @ [S1_unmount] \<and>
     mountedDuration S1_unmount = Some ((5000 - 3000) / 1000) \<and> (0::real) \<le> (5000 - 3000) / 1000"
    unfolding s' u by (simp add: doc_world_def S1_promoted_def)
  moreover from a have "duration_ok S1_unmount"
    unfolding s' by (simp add: scenario_closed_def S1_unmount_def)
  moreover have "addTime S1_record = 1000 \<and> addTime S1_promoted = 3000 \<and> mountedDuration S1_unmount = Some 2"
    by (simp add: scenario_defs)
  ultimately show ?thesis
    using scenario_promoted_run h2 h3 h4 h5 scenario_closed_step by simp
qed

text \<open>
  C6. Every ignorable input (an untrackable node, a missing surface id, a removal for a
  surface without a record or for a node other than the reference node, an addition that
  repeats the reference node or names a node that does not contain it) is a silent no-op:
  \<open>processNode\<close> returns normally and the state, with the live map, every record, the
  metadata bags and the emissions, is what it was.
\<close>

theorem C6_ignorable_input_is_a_silent_noop:
  assumes "ignorable w s ev action"
  shows "processNode w s ev action = Inr s"
proof (cases "trackable (ev_element ev)")
  case False
  then show ?thesis by (rule processNode_untrackable)
next
  case tr: True
  show ?thesis
  proof (cases "ev_surface ev")
    case None
    then show ?thesis by (rule processNode_no_surface)
  next
    case (Some sf)
    show ?thesis
    proof (cases action)
      case added
      with assms tr Some obtain info where i: "activeSurfaces s sf = Some info"
        and "ev_element ev = element info \<or> \<not> contains w (ev_element ev) (element info)"
        by (auto simp: ignorable_def split: option.splits)
      then show ?thesis unfolding added using processNode_added_other [OF i Some] by blast
    next
      case removed
      with assms tr Some have "activeSurfaces s sf = None \<or>
          (\<exists>info. activeSurfaces s sf = Some info \<and> element info \<noteq> ev_element ev)"
        by (auto simp: ignorable_def split: option.splits)
      then show ?thesis unfolding removed by (rule processNode_removed_stale [OF Some])
    qed
  qed
qed


theorem C6_witness:
  "ignorable (doc_world 2000 None) scenario_open (notify N5 ''S1'') added \<and>
   processNode (doc_world 2000 None) scenario_open (notify N5 ''S1'') added = Inr scenario_open \<and>
   ignorable (doc_world 2000 None) scenario_open ((notify N4 ''S1'')\<lparr>ev_surface := None\<rparr>) removed \<and>
   processNode (doc_world 2000 None) scenario_open ((notify N4 ''S1'')\<lparr>ev_surface := None\<rparr>) removed
     = Inr scenario_open \<and>
   ignorable (doc_world 2000 None) scenario_open (notify N4 ''S3'') removed \<and>
   processNode (doc_world 2000 None) scenario_open (notify N4 ''S3'') removed = Inr scenario_open \<and>
   ignorable (doc_world 2000 None) scenario_open (notify N4 ''S1'') removed \<and>
   processNode (doc_world 2000 None) scenario_open (notify N4 ''S1'') removed = Inr scenario_open \<and>
   ignorable (doc_world 2000 None) scenario_open (notify N1 ''S1'') added \<and>
   processNode (doc_world 2000 None) scenario_open (notify N1 ''S1'') added = Inr scenario_open \<and>
   ignorable (doc_world 2000 None) scenario_open (notify N4 ''S1'') added \<and>
   processNode (doc_world 2000 None) scenario_open (notify N4 ''S1'') added = Inr scenario_open"
proof -
  have i1: "ignorable (doc_world 2000 None) scenario_open (notify N5 ''S1'') added"
    by (simp add: ignorable_def trackable_def scenario_defs)
  have i2: "ignorable (doc_world 2000 None) scenario_open ((notify N4 ''S1'')\<lparr>ev_surface := None\<rparr>) removed"
    by (simp add: ignorable_def trackable_def scenario_defs)
  have i3: "ignorable (doc_world 2000 None) scenario_open (notify N4 ''S3'') removed"
    by (simp add: ignorable_def trackable_def scenario_defs)
  have i4: "ignorable (doc_world 2000 None) scenario_open (notify N4 ''S1'') removed"
    by (simp add: ignorable_def trackable_def scenario_defs)
  have i5: "ignorable (doc_world 2000 None) scenario_open (notify N1 ''S1'') added"
    by (simp add: ignorable_def trackable_def scenario_defs)
  have i6: "ignorable (doc_world 2000 None) scenario_open (notify N4 ''S1'') added"
    by (simp add: ignorable_def trackable_def scenario_defs)
  show ?thesis
    using i1 i2 i3 i4 i5 i6
      C6_ignorable_input_is_a_silent_noop [OF i1] C6_ignorable_input_is_a_silent_noop [OF i2]
      C6_ignorable_input_is_a_silent_noop [OF i3] C6_ignorable_input_is_a_silent_noop [OF i4]
      C6_ignorable_input_is_a_silent_noop [OF i5] C6_ignorable_input_is_a_silent_noop [OF i6]
    by simp
qed

text \<open>
  C7. Whatever the state and the notification, if a record is in the map before and after
  the call and its \<open>referenceNode\<close> (the field \<open>element\<close>) has changed, then the call was an
  \<open>added\<close> notification for that surface, the new reference node is the notified node, and
  that node differs from the old reference node and contains it. No operation assigns an
  unrelated node.
\<close>

theorem C7_reference_node_changes_only_by_promotion:
  assumes "processNode w s ev action = Inr s'"
    and "activeSurfaces s sf = Some info"
    and "activeSurfaces s' sf = Some info'"
    and "element info' \<noteq> element info"
  shows "action = added \<and> ev_surface ev = Some sf \<and> element info' = ev_element ev \<and>
         ev_element ev \<noteq> element info \<and> contains w (ev_element ev) (element info)"
proof (cases rule: processNode_cases [where w=w and s=s and ev=ev and action=action])
  case ignored
  with assms show ?thesis by simp
next
  case (opened sf0)
  from assms(1) have "s' = projr (processNode w s ev added)" by (simp add: opened(1))
  with assms(2-4) opened(4) show ?thesis
    unfolding processNode_open [OF opened(2-4)]
    by (auto split: if_splits)
next
  case (promoted sf0 info0)
  from assms(1) have "s' = projr (processNode w s ev added)" by (simp add: promoted(1))
  with assms(2-4) promoted show ?thesis
    unfolding processNode_promote [OF promoted(2-6)]
    by (auto split: if_splits)
next
  case (closed sf0 info0)
  show ?thesis
  proof (cases "mountEvent info0")
    case None
    from processNode_close_unopened [OF closed(2-5) None] assms(1) closed(1)
    show ?thesis by simp
  next
    case (Some me)
    from assms(1) have "s' = projr (processNode w s ev removed)" by (simp add: closed(1))
    with assms(2-4) show ?thesis
      unfolding processNode_close [OF closed(2-5) Some]
      by (auto split: if_splits)
  qed
qed

theorem C7_witness:
  "processNode (doc_world 3000 (Some (ALFlowlet 2))) scenario_open (notify N2 ''S1'') added
     = Inr scenario_promoted \<and>
   activeSurfaces scenario_open ''S1'' = Some S1_record \<and>
   activeSurfaces scenario_promoted ''S1'' = Some S1_promoted \<and>
   element S1_promoted \<noteq> element S1_record \<and>
   element S1_promoted = N2 \<and> element S1_record = N1 \<and>
   contains (doc_world 3000 (Some (ALFlowlet 2))) N2 N1"
proof -
  have h1: "processNode (doc_world 3000 (Some (ALFlowlet 2))) scenario_open (notify N2 ''S1'') added
     = Inr scenario_promoted"
    by (rule scenario_promoted_step)
  have h2: "activeSurfaces scenario_open ''S1'' = Some S1_record" by (simp add: scenario_open_def)
  have h3: "activeSurfaces scenario_promoted ''S1'' = Some S1_promoted"
    by (simp add: scenario_promoted_def)
  have h4: "element S1_promoted \<noteq> element S1_record" by (simp add: scenario_defs)
  from C7_reference_node_changes_only_by_promotion [OF h1 h2 h3 h4] h1 h2 h3 h4
  show ?thesis by (simp add: scenario_defs)
qed

text \<open>
  C8. In every reachable state: a first open under a flowlet \<open>fl\<close> writes
  \<open>add_flowlet = fl.getFullName()\<close> into the bag of the notification, which is the bag of
  the new record and of the mount event emitted; a matching close under a flowlet \<open>fl\<close>
  writes \<open>remove_flowlet = fl.getFullName()\<close> into the record's bag, which is also the bag
  of the unmount event and of the mount event emitted when the record was opened, so the
  entry is read through the earlier mount event too.
\<close>

theorem C8_flowlet_names_written_to_the_shared_metadata:
  assumes "run (init h) steps = Inr s"
  shows "(isHTMLElement (ev_element ev) \<and> \<not> regex_LINK_SCRIPT_test (nodeName (ev_element ev)) \<and>
          ev_surface ev = Some sf \<and> activeSurfaces s sf = None \<and> flowletManager_top w = Some fl \<longrightarrow>
            (\<exists>s' info u. processNode w s ev added = Inr s' \<and>
               activeSurfaces s' sf = Some info \<and>
               eventObjects s' = eventObjects s @ [u] \<and>
               event u = mount_component \<and>
               addFlowlet info = Some fl \<and>
               metadata info = ev_metadata ev \<and>
               metadata (spread u) = metadata info \<and>
               heap s' (metadata info) ''add_flowlet'' = Some (getFullName w fl))) \<and>
         (ev_surface ev = Some sf \<and> activeSurfaces s sf = Some info \<and>
          ev_element ev = element info \<and> flowletManager_top w = Some fl \<longrightarrow>
            (\<exists>s' u me. processNode w s ev removed = Inr s' \<and>
               eventObjects s' = eventObjects s @ [u] \<and>
               event u = unmount_component \<and>
               removeFlowlet (spread u) = Some fl \<and>
               metadata (spread u) = metadata info \<and>
               heap s' (metadata info) ''remove_flowlet'' = Some (getFullName w fl) \<and>
               mountEvent info = Some me \<and> mountEvent (spread u) = Some me \<and>
               me < length (eventObjects s) \<and>
               event (eventObjects s' ! me) = mount_component \<and>
               metadata (spread (eventObjects s' ! me)) = metadata (spread u) \<and>
               heap s' (metadata (spread (eventObjects s' ! me))) ''remove_flowlet''
                 = Some (getFullName w fl)))"
proof (intro conjI impI)
  assume a: "isHTMLElement (ev_element ev) \<and> \<not> regex_LINK_SCRIPT_test (nodeName (ev_element ev)) \<and>
          ev_surface ev = Some sf \<and> activeSurfaces s sf = None \<and> flowletManager_top w = Some fl"
  then have tr: "trackable (ev_element ev)" and sf: "ev_surface ev = Some sf"
    and no: "activeSurfaces s sf = None" and fl: "flowletManager_top w = Some fl"
    by (simp_all add: trackable_def)
  let ?u = "\<lparr>spread = new_info w ev sf, event = mount_component,
              eventTimestamp = performanceAbsoluteNow w,
              eventIndex = getNextEventIndex w (indexCalls s),
              autoLoggingID = getOrSetAutoLoggingID w (ev_element ev),
              mountedDuration = None\<rparr>"
  show "\<exists>s' info u. processNode w s ev added = Inr s' \<and>
               activeSurfaces s' sf = Some info \<and>
               eventObjects s' = eventObjects s @ [u] \<and>
               event u = mount_component \<and>
               addFlowlet info = Some fl \<and>
               metadata info = ev_metadata ev \<and>
               metadata (spread u) = metadata info \<and>
               heap s' (metadata info) ''add_flowlet'' = Some (getFullName w fl)"
    apply (rule exI [where x = "projr (processNode w s ev added)"])
    apply (rule exI [where x = "(new_info w ev sf)\<lparr>mountEvent := Some (length (eventObjects s))\<rparr>"])
    apply (rule exI [where x = ?u])
    unfolding processNode_open [OF tr sf no]
    by (simp add: new_info_def fl set_metadata_def)
next
  assume b: "ev_surface ev = Some sf \<and> activeSurfaces s sf = Some info \<and>
          ev_element ev = element info \<and> flowletManager_top w = Some fl"
  then have sf: "ev_surface ev = Some sf" and i: "activeSurfaces s sf = Some info"
    and el: "element info = ev_element ev" and fl: "flowletManager_top w = Some fl"
    by simp_all
  from reachable_inv [OF assms] i have ok: "record_ok s sf info"
    by (simp add: tracker_inv_def)
  then obtain me where me: "mountEvent info = Some me" "me < length (eventObjects s)"
      "event (eventObjects s ! me) = mount_component"
      "metadata (spread (eventObjects s ! me)) = metadata info"
    by (auto simp: record_ok_def split: option.splits)
  from ok el have tr: "trackable (ev_element ev)" by (simp add: record_ok_def)
  let ?u = "\<lparr>spread = info\<lparr>removeFlowlet := flowletManager_top w,
                              removeTime := Some (performanceAbsoluteNow w)\<rparr>,
              event = unmount_component,
              eventTimestamp = performanceAbsoluteNow w,
              eventIndex = getNextEventIndex w (indexCalls s),
              autoLoggingID = getOrSetAutoLoggingID w (element info),
              mountedDuration = Some ((performanceAbsoluteNow w - addTime info) / 1000)\<rparr>"
  show "\<exists>s' u me. processNode w s ev removed = Inr s' \<and>
               eventObjects s' = eventObjects s @ [u] \<and>
               event u = unmount_component \<and>
               removeFlowlet (spread u) = Some fl \<and>
               metadata (spread u) = metadata info \<and>
               heap s' (metadata info) ''remove_flowlet'' = Some (getFullName w fl) \<and>
               mountEvent info = Some me \<and> mountEvent (spread u) = Some me \<and>
               me < length (eventObjects s) \<and>
               event (eventObjects s' ! me) = mount_component \<and>
               metadata (spread (eventObjects s' ! me)) = metadata (spread u) \<and>
               heap s' (metadata (spread (eventObjects s' ! me))) ''remove_flowlet''
                 = Some (getFullName w fl)"
    apply (rule exI [where x = "projr (processNode w s ev removed)"])
    apply (rule exI [where x = ?u])
    apply (rule exI [where x = me])
    unfolding processNode_close [OF tr sf i el me(1)]
    using me by (simp add: fl set_metadata_def nth_append)
qed

theorem C8_witness:
  "processNode (doc_world 1000 (Some (ALFlowlet 1))) (init empty_heap) (notify N1 ''S1'') added
     = Inr scenario_open \<and>
   metadata S1_record = MetaRef 0 \<and> metadata (spread S1_mount) = MetaRef 0 \<and>
   heap scenario_open (MetaRef 0) ''add_flowlet'' = Some ''/click'' \<and>
   processNode (doc_world 5000 (Some (ALFlowlet 2))) scenario_promoted (notify N2 ''S1'') removed
     = Inr scenario_closed \<and>
   metadata (spread S1_unmount) = MetaRef 0 \<and>
   eventObjects scenario_closed ! 0 = S1_mount \<and>
   heap scenario_promoted (metadata (spread S1_mount)) ''remove_flowlet'' = None \<and>
   heap scenario_closed (metadata (spread S1_mount)) ''remove_flowlet'' = Some ''/timer''"
proof -
  have r0: "run (init empty_heap) [] = Inr (init empty_heap :: unit State)" by simp
  have a: "isHTMLElement (ev_element (notify N1 ''S1'')) \<and>
      \<not> regex_LINK_SCRIPT_test (nodeName (ev_element (notify N1 ''S1''))) \<and>
      ev_surface (notify N1 ''S1'') = Some ''S1'' \<and>
      activeSurfaces (init empty_heap :: unit State) ''S1'' = None \<and>
      flowletManager_top (doc_world 1000 (Some (ALFlowlet 1))) = Some (ALFlowlet 1)"
    by (simp add: scenario_defs)
  from C8_flowlet_names_written_to_the_shared_metadata [OF r0,
      where ev = "notify N1 ''S1''" and sf = "''S1''" and w = "doc_world 1000 (Some (ALFlowlet 1))"
        and fl = "ALFlowlet 1"] a
  obtain s1 info1 where p1:
    "processNode (doc_world 1000 (Some (ALFlowlet 1))) (init empty_heap) (notify N1 ''S1'') added = Inr s1"
    and i1: "activeSurfaces s1 ''S1'' = Some info1"
    and m1: "metadata info1 = ev_metadata (notify N1 ''S1'')"
    and g1: "heap s1 (metadata info1) ''add_flowlet''
               = Some (getFullName (doc_world 1000 (Some (ALFlowlet 1))) (ALFlowlet 1))"
    by blast
  from p1 scenario_open_step have s1: "s1 = scenario_open" by simp
  from g1 m1 have w1: "heap scenario_open (MetaRef 0) ''add_flowlet'' = Some ''/click''"
    unfolding s1 by (simp add: notify_def doc_world_def)
  have b: "ev_surface (notify N2 ''S1'') = Some ''S1'' \<and>
      activeSurfaces scenario_promoted ''S1'' = Some S1_promoted \<and>
      ev_element (notify N2 ''S1'') = element S1_promoted \<and>
      flowletManager_top (doc_world 5000 (Some (ALFlowlet 2))) = Some (ALFlowlet 2)"
    by (simp add: scenario_defs)
  from C8_flowlet_names_written_to_the_shared_metadata [OF scenario_promoted_run,
      where ev = "notify N2 ''S1''" and sf = "''S1''" and w = "doc_world 5000 (Some (ALFlowlet 2))"
        and fl = "ALFlowlet 2" and info = S1_promoted] b
  obtain s2 me where p2:
    "processNode (doc_world 5000 (Some (ALFlowlet 2))) scenario_promoted (notify N2 ''S1'') removed = Inr s2"
    and me: "mountEvent S1_promoted = Some me"
    and g2: "heap s2 (metadata (spread (eventObjects s2 ! me))) ''remove_flowlet''
               = Some (getFullName (doc_world 5000 (Some (ALFlowlet 2))) (ALFlowlet 2))"
    by blast
  from p2 scenario_closed_step have s2: "s2 = scenario_closed" by simp
  from me have me0: "me = 0" by (simp add: S1_promoted_def S1_record_def)
  from g2 have w2: "heap scenario_closed (metadata (spread S1_mount)) ''remove_flowlet'' = Some ''/timer''"
    unfolding s2 me0 by (simp add: scenario_closed_def doc_world_def)
  have rest: "metadata S1_record = MetaRef 0 \<and> metadata (spread S1_mount) = MetaRef 0 \<and>
      metadata (spread S1_unmount) = MetaRef 0 \<and> eventObjects scenario_closed ! 0 = S1_mount \<and>
      heap scenario_promoted (metadata (spread S1_mount)) ''remove_flowlet'' = None"
    by (simp add: scenario_defs)
  from w1 w2 rest scenario_open_step scenario_closed_step show ?thesis by blast
qed

text \<open>
  C9. Every event handed to the channel carries the value of one call to the index
  generator made for it: over any notification sequence from the empty map the number of
  calls equals the number of emissions, and the event indices, in order of emission, are
  the generator's answers in order. So when the generator's answers increase strictly,
  the event indices observed increase strictly.
\<close>

theorem C9_event_indices_strictly_increase:
  assumes "run (init h) steps = Inr s"
    and "\<forall>st \<in> set steps. getNextEventIndex (fst st) = gen"
    and "\<forall>i j. i < j \<longrightarrow> gen i < gen j"
  shows "indexCalls s = length (channel s) \<and>
         emittedIndices s = map gen [0..<length (channel s)] \<and>
         sorted_wrt (<) (emittedIndices s)"
proof -
  have "indexCalls s = length (eventObjects s) \<and>
        channel s = [0..<length (eventObjects s)] \<and>
        map eventIndex (eventObjects s) = map gen [0..<length (eventObjects s)]"
    by (rule index_run [OF tracker_inv_init assms(2) _ _ _ assms(1)]) (simp_all add: init_def)
  then have a: "indexCalls s = length (eventObjects s)"
    and b: "channel s = [0..<length (eventObjects s)]"
    and c: "map eventIndex (eventObjects s) = map gen [0..<length (eventObjects s)]"
    by simp_all
  from b have len: "length (channel s) = length (eventObjects s)" by simp
  have e: "emittedIndices s = map gen [0..<length (channel s)]"
    using emittedIndices_all [OF b] c len by simp
  show ?thesis
    using a len e sorted_wrt_strict_gen [OF assms(3)] by simp
qed

theorem C9_witness:
  "run (init empty_heap) close_steps = Inr scenario_closed \<and>
   indexCalls scenario_closed = 2 \<and> length (channel scenario_closed) = 2 \<and>
   emittedIndices scenario_closed = [1, 2] \<and>
   sorted_wrt (<) (emittedIndices scenario_closed)"
proof -
  have h2: "\<forall>st \<in> set close_steps. getNextEventIndex (fst st) = (\<lambda>k. int k + 1)"
    by (simp add: close_steps_def promote_steps_def open_steps_def doc_world_def)
  have h3: "\<forall>i j. i < j \<longrightarrow> int i + 1 < int j + 1" by simp
  have l: "length (channel scenario_closed) = 2" by (simp add: scenario_closed_def)
  have m: "map (\<lambda>k. int k + 1) [0..<2] = [1, 2]" by (simp add: upt_rec)
  from C9_event_indices_strictly_increase [OF scenario_closed_run h2 h3] l m scenario_closed_run
  show ?thesis by simp
qed

text \<open>
  C10. The guard's pattern is an unanchored search: whenever the element's \<open>nodeName\<close>
  has \<open>LINK\<close> or \<open>SCRIPT\<close> somewhere inside it (as \<open>MY-LINK-CARD\<close> has), \<open>processNode\<close>
  returns at once, for \<open>added\<close> and for \<open>removed\<close> alike, with the state as it was: no
  record, bag or store is touched and nothing is emitted.
\<close>

theorem C10_pattern_is_a_substring_search:
  assumes "nodeName (ev_element ev) = pre @ ''LINK'' @ post \<or>
           nodeName (ev_element ev) = pre @ ''SCRIPT'' @ post"
  shows "processNode w s ev action = Inr s"
proof -
  from assms have "sublist ''LINK'' (nodeName (ev_element ev)) \<or>
      sublist ''SCRIPT'' (nodeName (ev_element ev))"
    unfolding sublist_def by blast
  then have "\<not> trackable (ev_element ev)"
    by (simp add: trackable_def regex_test_sublist)
  then show ?thesis by (rule processNode_untrackable)
qed

theorem C10_witness:
  "nodeName (ev_element (notify N3 ''S1'')) = ''MY-'' @ ''LINK'' @ ''-CARD'' \<and>
   isHTMLElement (ev_element (notify N3 ''S1'')) \<and>
   processNode (doc_world 2000 None) scenario_open (notify N3 ''S1'') added = Inr scenario_open \<and>
   processNode (doc_world 2000 None) scenario_open (notify N3 ''S1'') removed = Inr scenario_open"
proof -
  have n: "nodeName (ev_element (notify N3 ''S1'')) = ''MY-'' @ ''LINK'' @ ''-CARD''"
    by (simp add: notify_def N3_def)
  have h: "nodeName (ev_element (notify N3 ''S1'')) = ''MY-'' @ ''LINK'' @ ''-CARD'' \<or>
           nodeName (ev_element (notify N3 ''S1'')) = ''MY-'' @ ''SCRIPT'' @ ''-CARD''"
    using n by blast
  show ?thesis
    using n C10_pattern_is_a_substring_search [OF h, of "doc_world 2000 None" scenario_open added]
      C10_pattern_is_a_substring_search [OF h, of "doc_world 2000 None" scenario_open removed]
    by (simp add: notify_def N3_def)
qed

end
